theory Spec2Isabelle
  imports Main
begin

section \<open>The orchestrator node (orchestrator/node/node.go)\<close>

text \<open>
  The node owns a service registry, a cancellable context derived from the context of
  the command line, a lifecycle lock and a stop channel. The functions of node.go are
  embedded as state-passing functions over a record of the struct's fields. What a
  function does beyond changing the fields (log lines, goroutines it starts, services
  it starts and stops, the cancel call, the close of the stop channel) is appended to
  an effect trace kept in the record.
\<close>

subsection \<open>Data\<close>

text \<open>
  \<open>CliContext\<close> is \<open>cliCtx.Context\<close>; \<open>NodeContext\<close> is the child that
  \<open>context.WithCancel(cliCtx.Context)\<close> returns in \<open>New\<close>, together with its cancel
  function.
\<close>

datatype go_context = CliContext | NodeContext

text \<open>The concrete service types (the registry keys services by their Go type).\<close>

datatype kind = Vanguard | Pandora | RPC | Consensus

type_synonym db_handle = nat

text \<open>
  A service as far as node.go determines it: its type, the context and the database
  handle it was constructed with.
\<close>

record service =
  svc_kind :: kind
  svc_ctx :: go_context
  svc_db :: "db_handle option"

datatype error =
    ExternalError string
  | Wrap error string
  | ServiceNotFoundError kind
  | DuplicateServiceError kind

datatype level = Debug | Info | Warning | Error

datatype field_value = FStr string | FInt int | FErr error

datatype effect =
    Log level "(string \<times> field_value) list" string
  | GoRegisterConsensusService
  | GoSignalHandler
  | GoClose
  | StartAllCalled
  | ServiceStart kind
  | StopAllCalled
  | ServiceStop kind
  | Cancel go_context
  | CloseStopChannel

datatype chan_state = Open | Closed

text \<open>
  The fields of \<open>OrchestratorNode\<close>. \<open>lock\<close> is True while the mutex is held;
  \<open>cancel\<close> is the context that the stored cancel function cancels; \<open>cancelled\<close>
  is the set of contexts cancelled so far; \<open>db\<close> is None until \<open>startDB\<close> sets it.
\<close>

record node =
  cliCtx :: go_context
  ctx :: go_context
  cancel :: go_context
  services :: "service list"
  lock :: bool
  stop :: chan_state
  db :: "db_handle option"
  cancelled :: "go_context set"
  effects :: "effect list"

definition emit :: "effect list \<Rightarrow> node \<Rightarrow> node" where
  "emit es o_node = o_node\<lparr>effects := effects o_node @ es\<rparr>"

subsection \<open>The service registry (package shared)\<close>

text \<open>
  Modelled from the spec: the type \<open>shared.ServiceRegistry\<close> and its methods
  \<open>RegisterService\<close>, \<open>FetchService\<close>, \<open>StartAll\<close> and \<open>StopAll\<close> are called by
  node.go but are not part of the source file. The spec (4.1) gives them as: an ordered
  sequence of services keyed by their type; Register fails with DuplicateServiceError
  when the type is present and appends otherwise; Fetch returns the registered instance
  or fails with ServiceNotFoundError; StartAll starts every service in registration
  order; StopAll stops every service in reverse registration order.
\<close>

definition NewServiceRegistry :: "service list" where
  "NewServiceRegistry = []"

definition RegisterService :: "service list \<Rightarrow> service \<Rightarrow> error + service list" where
  "RegisterService reg svc =
     (if svc_kind svc \<in> set (map svc_kind reg) then Inl (DuplicateServiceError (svc_kind svc))
      else Inr (reg @ [svc]))"

definition FetchService :: "service list \<Rightarrow> kind \<Rightarrow> error + service" where
  "FetchService reg k =
     (case find (\<lambda>s. svc_kind s = k) reg of
        None \<Rightarrow> Inl (ServiceNotFoundError k)
      | Some s \<Rightarrow> Inr s)"

definition StartAll :: "service list \<Rightarrow> effect list" where
  "StartAll reg = map (\<lambda>s. ServiceStart (svc_kind s)) reg"

definition StopAll :: "service list \<Rightarrow> effect list" where
  "StopAll reg = map (\<lambda>s. ServiceStop (svc_kind s)) (rev reg)"

subsection \<open>The synchronization gate of registerConsensusService\<close>

text \<open>
  The two feeds the loop selects on: \<open>vanguardHeadersChan\<close> and
  \<open>vanguardConsensusInfoChan\<close>. A run of the loop is driven by the sequence of
  deliveries, in the order in which the select statement receives them.
\<close>

datatype feed = HeadersFeed | ConsensusInfoFeed

text \<open>The loop's variables: the two flags (True = still waiting) and the lines logged.\<close>

record gate =
  vanguardHeaderLock :: bool
  vanguardConsensusLock :: bool
  gate_log :: "effect list"

definition gate_init :: gate where
  "gate_init = \<lparr>vanguardHeaderLock = True, vanguardConsensusLock = True, gate_log = []\<rparr>"

text \<open>
  One iteration of the \<open>for\<close> loop on one delivery. The second component is True when
  the iteration reaches \<open>break\<close>; a \<open>continue\<close> skips the test at the end of the body.
\<close>

fun gate_iteration :: "gate \<Rightarrow> feed \<Rightarrow> gate \<times> bool" where
  "gate_iteration g HeadersFeed =
     (if \<not> vanguardHeaderLock g then (g, False)
      else
        let g' = g\<lparr>vanguardHeaderLock := False,
                   gate_log := gate_log g @
                     [Log Info [(''context'', FStr ''vanguardHeadersChan'')]
                        ''received signal about vanguard headers'']\<rparr>
        in if \<not> vanguardHeaderLock g' \<and> \<not> vanguardConsensusLock g'
           then (g'\<lparr>gate_log := gate_log g' @
                      [Log Info [(''context'', FStr ''consensus service lock'')]
                         ''unchained all locks'']\<rparr>, True)
           else (g', False))"
| "gate_iteration g ConsensusInfoFeed =
     (if \<not> vanguardConsensusLock g then (g, False)
      else
        let g' = g\<lparr>vanguardConsensusLock := False,
                   gate_log := gate_log g @
                     [Log Info [(''context'', FStr ''vanguardHeadersChan'')]
                        ''received signal about vanguard consensus info'']\<rparr>
        in if \<not> vanguardHeaderLock g' \<and> \<not> vanguardConsensusLock g'
           then (g'\<lparr>gate_log := gate_log g' @
                      [Log Info [(''context'', FStr ''consensus service lock'')]
                         ''unchained all locks'']\<rparr>, True)
           else (g', False))"

text \<open>
  The loop over the deliveries. \<open>Satisfied g rest\<close>: the loop left through \<open>break\<close>
  with the deliveries \<open>rest\<close> not yet received. \<open>Waiting g\<close>: every delivery has been
  received and the loop is blocked in the select statement.
\<close>

datatype gate_result = Satisfied gate "feed list" | Waiting gate

fun gate_loop :: "gate \<Rightarrow> feed list \<Rightarrow> gate_result" where
  "gate_loop g [] = Waiting g"
| "gate_loop g (f # fs) =
     (case gate_iteration g f of
        (g', True) \<Rightarrow> Satisfied g' fs
      | (g', False) \<Rightarrow> gate_loop g' fs)"



subsection \<open>Construction: startDB, the register functions and New\<close>

text \<open>
  What the command line and the external constructors give to one run of \<open>New\<close>: the
  flags read from \<open>cliCtx\<close> and the outcome of every call into another package
  (\<open>db.NewDB\<close> before and after the clearing, \<open>cmd.ConfirmAction\<close>, \<open>d.Close\<close>,
  \<open>d.ClearDB\<close>, and the three \<open>NewService\<close> constructors). An outcome
  \<open>Some err\<close> or \<open>Inl err\<close> is a non-nil error.
\<close>

record env =
  dbPath :: string
  clearDB :: bool
  forceClearDB :: bool
  NewDB_first :: "error + db_handle"
  ConfirmAction :: "error + bool"
  db_Close :: "error option"
  db_ClearDB :: "error option"
  NewDB_second :: "error + db_handle"
  vanguardGRPCUrl :: string
  vanguardchain_NewService :: "error option"
  pandoraRPCUrl :: string
  pandorachain_NewService :: "error option"
  ipcFilePath :: string
  rpc_NewService :: "error option"

text \<open>
  A method with result type \<open>error\<close> returns the error (None is nil) and the receiver
  as the call left it.
\<close>

definition startDB :: "env \<Rightarrow> node \<Rightarrow> error option \<times> node" where
  "startDB e o_node =
     (let o1 = emit [Log Info [(''database-path'', FStr (dbPath e))] ''Checking DB''] o_node in
      case NewDB_first e of
        Inl err \<Rightarrow> (Some err, o1)
      | Inr d \<Rightarrow>
          (case (if clearDB e \<and> \<not> forceClearDB e then ConfirmAction e else Inr False) of
             Inl err \<Rightarrow> (Some err, o1)
           | Inr clearDBConfirmed \<Rightarrow>
               if clearDBConfirmed \<or> forceClearDB e then
                 (let o2 = emit [Log Warning [] ''Removing database''] o1 in
                  case db_Close e of
                    Some err \<Rightarrow> (Some (Wrap err ''could not close db prior to clearing''), o2)
                  | None \<Rightarrow>
                      (case db_ClearDB e of
                         Some err \<Rightarrow> (Some (Wrap err ''could not clear database''), o2)
                       | None \<Rightarrow>
                           (case NewDB_second e of
                              Inl err \<Rightarrow> (Some (Wrap err ''could not create new database''), o2)
                            | Inr d' \<Rightarrow> (None, o2\<lparr>db := Some d'\<rparr>))))
               else (None, o1\<lparr>db := Some d\<rparr>)))"

text \<open>\<open>o.services.RegisterService(svc)\<close>, with its error returned to the caller.\<close>

definition register_in :: "node \<Rightarrow> service \<Rightarrow> error option \<times> node" where
  "register_in o_node svc =
     (case RegisterService (services o_node) svc of
        Inl err \<Rightarrow> (Some err, o_node)
      | Inr reg \<Rightarrow> (None, o_node\<lparr>services := reg\<rparr>))"

definition registerVanguardChainService :: "env \<Rightarrow> node \<Rightarrow> error option \<times> node" where
  "registerVanguardChainService e o_node =
     (case vanguardchain_NewService e of
        Some err \<Rightarrow> (None, o_node)
      | None \<Rightarrow>
          register_in
            (emit [Log Info [(''vanguardGRPCUrl'', FStr (vanguardGRPCUrl e))]
                     ''Registered vanguard chain service''] o_node)
            \<lparr>svc_kind = Vanguard, svc_ctx = ctx o_node, svc_db = db o_node\<rparr>)"

definition registerPandoraChainService :: "env \<Rightarrow> node \<Rightarrow> error option \<times> node" where
  "registerPandoraChainService e o_node =
     (case pandorachain_NewService e of
        Some err \<Rightarrow> (None, o_node)
      | None \<Rightarrow>
          register_in
            (emit [Log Info [(''pandoraHttpUrl'', FStr (pandoraRPCUrl e))]
                     ''Registered pandora chain service''] o_node)
            \<lparr>svc_kind = Pandora, svc_ctx = ctx o_node, svc_db = db o_node\<rparr>)"

definition registerRPCService :: "env \<Rightarrow> node \<Rightarrow> error option \<times> node" where
  "registerRPCService e o_node =
     (case FetchService (services o_node) Vanguard of
        Inl err \<Rightarrow> (Some err, o_node)
      | Inr consensusInfoFeed \<Rightarrow>
          (let o1 = (if ipcFilePath e \<noteq> []
                     then emit [Log Info [(''ipcFilePath'', FStr (ipcFilePath e))]
                                  ''ipc file path''] o_node
                     else o_node);
               o2 = emit [Log Debug [] ''rpc server configuration''] o1
           in case rpc_NewService e of
                Some err \<Rightarrow> (None, o2)
              | None \<Rightarrow>
                  register_in (emit [Log Info [] ''Registered RPC service''] o2)
                    \<lparr>svc_kind = RPC, svc_ctx = ctx o2, svc_db = db o2\<rparr>))"

text \<open>
  \<open>New\<close> returns \<open>(nil, err)\<close>, here \<open>Inl err\<close>, or \<open>(orchestrator, nil)\<close>, here
  \<open>Inr orchestrator\<close>. Its last statement starts \<open>registerConsensusService\<close> as a
  goroutine; that function is embedded below and runs on the node \<open>New\<close> returned.
\<close>

definition new_node :: node where
  "new_node =
     \<lparr>cliCtx = CliContext, ctx = NodeContext, cancel = NodeContext,
      services = NewServiceRegistry, lock = False, stop = Open, db = None,
      cancelled = {}, effects = []\<rparr>"

definition New :: "env \<Rightarrow> error + node" where
  "New e =
     (let orchestrator = new_node
      in case startDB e orchestrator of
           (Some err, _) \<Rightarrow> Inl err
         | (None, o1) \<Rightarrow>
             (case registerVanguardChainService e o1 of
                (Some err, _) \<Rightarrow> Inl err
              | (None, o2) \<Rightarrow>
                  (case registerPandoraChainService e o2 of
                     (Some err, _) \<Rightarrow> Inl err
                   | (None, o3) \<Rightarrow>
                       (case registerRPCService e o3 of
                          (Some err, _) \<Rightarrow> Inl err
                        | (None, o4) \<Rightarrow> Inr (emit [GoRegisterConsensusService] o4)))))"

text \<open>An environment in which every external call succeeds and no clearing is asked for.\<close>

definition ok_env :: env where
  "ok_env =
     \<lparr>dbPath = ''data/orchestrator'', clearDB = False, forceClearDB = False,
      NewDB_first = Inr 1, ConfirmAction = Inr False, db_Close = None, db_ClearDB = None,
      NewDB_second = Inr 2, vanguardGRPCUrl = ''127.0.0.1:4000'',
      vanguardchain_NewService = None, pandoraRPCUrl = ''http://127.0.0.1:8545'',
      pandorachain_NewService = None, ipcFilePath = [], rpc_NewService = None\<rparr>"

text \<open>The same environment with one external call failing.\<close>

definition storage_fails :: env where
  "storage_fails = ok_env\<lparr>NewDB_first := Inl (ExternalError ''open failed'')\<rparr>"

definition vanguard_fails :: env where
  "vanguard_fails = ok_env\<lparr>vanguardchain_NewService := Some (ExternalError ''dial failed'')\<rparr>"

definition pandora_fails :: env where
  "pandora_fails = ok_env\<lparr>pandorachain_NewService := Some (ExternalError ''dial failed'')\<rparr>"

definition rpc_fails :: env where
  "rpc_fails = ok_env\<lparr>rpc_NewService := Some (ExternalError ''listen failed'')\<rparr>"

subsection \<open>registerConsensusService\<close>

text \<open>
  The function has no result. The model returns whether it returned or is blocked in the
  gate's select statement, and the node as it left it. \<open>consensus.New\<close> is called with
  \<open>cliCtx.Context\<close> and \<open>o.db\<close>.
\<close>

datatype progress = Returned | BlockedInSelect

definition consensus_not_registered :: "error \<Rightarrow> effect" where
  "consensus_not_registered err = Log Error [(''err'', FErr err)] ''Consensus service not registered''"

definition registerConsensusService :: "feed list \<Rightarrow> node \<Rightarrow> progress \<times> node" where
  "registerConsensusService deliveries o_node =
     (case FetchService (services o_node) Vanguard of
        Inl err \<Rightarrow> (Returned, emit [consensus_not_registered err] o_node)
      | Inr vanguardChain \<Rightarrow>
          (case FetchService (services o_node) Pandora of
             Inl err \<Rightarrow> (Returned, emit [consensus_not_registered err] o_node)
           | Inr pandoraChain \<Rightarrow>
               (case gate_loop gate_init deliveries of
                  Waiting g \<Rightarrow> (BlockedInSelect, emit (gate_log g) o_node)
                | Satisfied g rest \<Rightarrow>
                    (let o1 = emit (gate_log g) o_node;
                         svc = \<lparr>svc_kind = Consensus, svc_ctx = cliCtx o1, svc_db = db o1\<rparr>
                     in case RegisterService (services o1) svc of
                          Inl err \<Rightarrow> (Returned, emit [consensus_not_registered err] o1)
                        | Inr reg \<Rightarrow> (Returned, o1\<lparr>services := reg\<rparr>)))))"

subsection \<open>Start and Close\<close>

text \<open>
  The outcome of a call: it ran to its end, it panicked (with the state the deferred
  calls left), or it is blocked (on the lifecycle lock, or on the stop channel).
\<close>

datatype 'a outcome = Completed 'a | Panic string 'a | Blocked 'a

text \<open>
  \<open>Lock\<close> returns None when the mutex is held: the caller waits. Every \<open>Unlock\<close> of
  node.go is run by the goroutine that took the lock.
\<close>

definition Lock :: "node \<Rightarrow> node option" where
  "Lock o_node = (if lock o_node then None else Some (o_node\<lparr>lock := True\<rparr>))"

definition Unlock :: "node \<Rightarrow> node" where
  "Unlock o_node = o_node\<lparr>lock := False\<rparr>"

text \<open>The statements of \<open>Close\<close> between taking and releasing the lock.\<close>

definition Close_StopAll :: "node \<Rightarrow> node" where
  "Close_StopAll b =
     emit ([Log Info [] ''Stopping orchestrator node'', StopAllCalled] @ StopAll (services b)) b"

definition Close_cancel :: "node \<Rightarrow> node" where
  "Close_cancel b = emit [Cancel (cancel b)] (b\<lparr>cancelled := insert (cancel b) (cancelled b)\<rparr>)"

text \<open>\<open>close(b.stop)\<close>: closing a closed channel panics.\<close>

definition Close_stop :: "node \<Rightarrow> string + node" where
  "Close_stop b =
     (case stop b of
        Closed \<Rightarrow> Inl ''close of closed channel''
      | Open \<Rightarrow> Inr (emit [CloseStopChannel] (b\<lparr>stop := Closed\<rparr>)))"

text \<open>
  \<open>Close\<close> as one step: its whole body runs between \<open>Lock\<close> and the deferred
  \<open>Unlock\<close>, so calls of \<open>Close\<close> by several goroutines run one after the other.
  The deferred \<open>Unlock\<close> also runs when \<open>close\<close> panics.
\<close>

definition Close :: "node \<Rightarrow> node outcome" where
  "Close b =
     (case Lock b of
        None \<Rightarrow> Blocked b
      | Some b1 \<Rightarrow>
          (let b2 = Close_cancel (Close_StopAll b1) in
           case Close_stop b2 of
             Inl msg \<Rightarrow> Panic msg (Unlock b2)
           | Inr b3 \<Rightarrow> Completed (Unlock b3)))"

text \<open>
  \<open>n\<close> calls of \<open>Close\<close> on the same node, in the order in which they take the lock.
  A panic ends the process, so no later call runs.
\<close>

fun Close_times :: "nat \<Rightarrow> node \<Rightarrow> node outcome" where
  "Close_times 0 b = Completed b"
| "Close_times (Suc n) b =
     (case Close b of
        Completed b' \<Rightarrow> Close_times n b'
      | Panic msg b' \<Rightarrow> Panic msg b'
      | Blocked b' \<Rightarrow> Blocked b')"

text \<open>How often an effect occurs in a trace.\<close>

definition occurrences :: "effect \<Rightarrow> effect list \<Rightarrow> nat" where
  "occurrences x es = length (filter (\<lambda>y. y = x) es)"

text \<open>What one run of the body of \<open>Close\<close> appends to the trace before \<open>close(b.stop)\<close>.\<close>

definition Close_effects :: "node \<Rightarrow> effect list" where
  "Close_effects b =
     [Log Info [] ''Stopping orchestrator node'', StopAllCalled] @ StopAll (services b) @
     [Cancel (cancel b)]"

text \<open>
  The statements of \<open>Start\<close> between taking and releasing the lock. The value of
  \<open>version.Version()\<close> comes from another package; the trace keeps its name.
\<close>

definition Start_StartAll :: "node \<Rightarrow> node" where
  "Start_StartAll o_node =
     emit ([Log Info [(''version'', FStr ''version.Version()'')] ''Starting orchestrator node'',
            StartAllCalled] @ StartAll (services o_node)) o_node"

text \<open>\<open>Start\<close> up to the receive from the stop channel.\<close>

definition Start_until_wait :: "node \<Rightarrow> node outcome" where
  "Start_until_wait o_node =
     (case Lock o_node of
        None \<Rightarrow> Blocked o_node
      | Some o1 \<Rightarrow> Completed (emit [GoSignalHandler] (Unlock (Start_StartAll o1))))"

text \<open>\<open><-stop\<close>: returns once the channel is closed.\<close>

definition Start_wait :: "node \<Rightarrow> node outcome" where
  "Start_wait o_node = (case stop o_node of Closed \<Rightarrow> Completed o_node | Open \<Rightarrow> Blocked o_node)"

definition Start :: "node \<Rightarrow> node outcome" where
  "Start o_node =
     (case Start_until_wait o_node of
        Completed o1 \<Rightarrow> Start_wait o1
      | Panic msg o1 \<Rightarrow> Panic msg o1
      | Blocked o1 \<Rightarrow> Blocked o1)"

subsection \<open>The signal-handling goroutine of Start\<close>

text \<open>
  Where the goroutine stands: at the first \<open><-sigc\<close>, at the \<open><-sigc\<close> of the loop with
  the loop variable \<open>i\<close>, or after the \<open>panic\<close>.
\<close>

datatype handler_pc = AwaitFirst | AwaitRepeat int | HandlerPanicked

text \<open>The head of \<open>for i := 10; i > 0; i--\<close>; the statement after the loop is the panic.\<close>

definition loop_head :: "int \<Rightarrow> handler_pc" where
  "loop_head i = (if i > 0 then AwaitRepeat i else HandlerPanicked)"

text \<open>What the goroutine does on one signal, up to its next receive.\<close>

fun on_signal :: "handler_pc \<Rightarrow> handler_pc \<times> effect list" where
  "on_signal AwaitFirst =
     (loop_head 10, [Log Info [] ''Got interrupt, shutting down...'', GoClose])"
| "on_signal (AwaitRepeat i) =
     (loop_head (i - 1),
      if i > 1
      then [Log Info [(''times'', FInt (i - 1))] ''Already shutting down, interrupt more to panic'']
      else [])"
| "on_signal HandlerPanicked = (HandlerPanicked, [])"

datatype signal = SIGINT | SIGTERM

fun handle_signals :: "handler_pc \<Rightarrow> signal list \<Rightarrow> handler_pc \<times> effect list" where
  "handle_signals pc [] = (pc, [])"
| "handle_signals pc (s # ss) =
     (case on_signal pc of
        (pc', es) \<Rightarrow> (case handle_signals pc' ss of (pc'', es') \<Rightarrow> (pc'', es @ es')))"

definition signal_handler :: "signal list \<Rightarrow> handler_pc \<times> effect list" where
  "signal_handler sigs = handle_signals AwaitFirst sigs"

definition repeat_warning :: "int \<Rightarrow> effect" where
  "repeat_warning remaining =
     Log Info [(''times'', FInt remaining)] ''Already shutting down, interrupt more to panic''"

subsection \<open>Start, the signal handler and Close as goroutines\<close>

text \<open>
  The three goroutines step by step, over the shared node: \<open>Start\<close> (the caller's
  goroutine), the signal handler that \<open>Start\<close> starts, and the \<open>Close\<close> that the
  handler starts on the first signal. A program counter says which statement a goroutine
  runs next; the handler and \<open>Close\<close> have none until they are started.
\<close>

datatype start_pc =
  StartAtLock | StartAtStartAll | StartAtUnlock | StartAtGo | StartAtWait | StartReturned

datatype close_pc =
  CloseAtLock | CloseAtStopAll | CloseAtCancel | CloseAtStop | CloseAtUnlock
  | CloseReturned | ClosePanicked

record system =
  shared :: node
  start_at :: start_pc
  handler_at :: "handler_pc option"
  close_at :: "close_pc option"

definition system_init :: "node \<Rightarrow> system" where
  "system_init o_node =
     \<lparr>shared = o_node, start_at = StartAtLock, handler_at = None, close_at = None\<rparr>"

text \<open>A panic in any goroutine ends the process.\<close>

definition crashed :: "system \<Rightarrow> bool" where
  "crashed s = (handler_at s = Some HandlerPanicked \<or> close_at s = Some ClosePanicked)"

text \<open>
  One statement of a goroutine; None when the goroutine cannot move (it waits for the
  lock, for the stop channel or for a signal, it has finished, it has not been started,
  or the process has crashed).
\<close>

definition step_Start :: "system \<Rightarrow> system option" where
  "step_Start s =
     (if crashed s then None
      else case start_at s of
        StartAtLock \<Rightarrow>
          (case Lock (shared s) of
             None \<Rightarrow> None
           | Some o1 \<Rightarrow> Some (s\<lparr>shared := o1, start_at := StartAtStartAll\<rparr>))
      | StartAtStartAll \<Rightarrow>
          Some (s\<lparr>shared := Start_StartAll (shared s), start_at := StartAtUnlock\<rparr>)
      | StartAtUnlock \<Rightarrow> Some (s\<lparr>shared := Unlock (shared s), start_at := StartAtGo\<rparr>)
      | StartAtGo \<Rightarrow>
          Some (s\<lparr>shared := emit [GoSignalHandler] (shared s),
                  handler_at := Some AwaitFirst, start_at := StartAtWait\<rparr>)
      | StartAtWait \<Rightarrow>
          (case Start_wait (shared s) of
             Completed o1 \<Rightarrow> Some (s\<lparr>start_at := StartReturned\<rparr>)
           | Panic msg o1 \<Rightarrow> None
           | Blocked o1 \<Rightarrow> None)
      | StartReturned \<Rightarrow> None)"

text \<open>
  A signal arrives and the handler receives it. A signal that arrives before \<open>Start\<close>
  has started the handler is not the handler's and changes nothing here.
\<close>

definition step_Signal :: "system \<Rightarrow> system option" where
  "step_Signal s =
     (if crashed s then None
      else case handler_at s of
        None \<Rightarrow> None
      | Some pc \<Rightarrow>
          (case on_signal pc of
             (pc', es) \<Rightarrow>
               Some (s\<lparr>shared := emit es (shared s), handler_at := Some pc',
                       close_at := (if GoClose \<in> set es then Some CloseAtLock else close_at s)\<rparr>)))"

definition step_Close :: "system \<Rightarrow> system option" where
  "step_Close s =
     (if crashed s then None
      else case close_at s of
        None \<Rightarrow> None
      | Some CloseAtLock \<Rightarrow>
          (case Lock (shared s) of
             None \<Rightarrow> None
           | Some b1 \<Rightarrow> Some (s\<lparr>shared := b1, close_at := Some CloseAtStopAll\<rparr>))
      | Some CloseAtStopAll \<Rightarrow>
          Some (s\<lparr>shared := Close_StopAll (shared s), close_at := Some CloseAtCancel\<rparr>)
      | Some CloseAtCancel \<Rightarrow>
          Some (s\<lparr>shared := Close_cancel (shared s), close_at := Some CloseAtStop\<rparr>)
      | Some CloseAtStop \<Rightarrow>
          (case Close_stop (shared s) of
             Inl msg \<Rightarrow> Some (s\<lparr>shared := Unlock (shared s), close_at := Some ClosePanicked\<rparr>)
           | Inr b1 \<Rightarrow> Some (s\<lparr>shared := b1, close_at := Some CloseAtUnlock\<rparr>))
      | Some CloseAtUnlock \<Rightarrow>
          Some (s\<lparr>shared := Unlock (shared s), close_at := Some CloseReturned\<rparr>)
      | Some CloseReturned \<Rightarrow> None
      | Some ClosePanicked \<Rightarrow> None)"

datatype move = StartMoves | SignalArrives | CloseMoves

fun step :: "move \<Rightarrow> system \<Rightarrow> system option" where
  "step StartMoves s = step_Start s"
| "step SignalArrives s = step_Signal s"
| "step CloseMoves s = step_Close s"

text \<open>
  A schedule is the order in which the goroutines are given a turn. A goroutine that
  cannot move when it is given a turn leaves the state as it is.
\<close>

fun run :: "move list \<Rightarrow> system \<Rightarrow> system" where
  "run [] s = s"
| "run (m # ms) s = run ms (case step m s of None \<Rightarrow> s | Some s' \<Rightarrow> s')"

text \<open>
  Where the goroutines stand, read from the program counters: \<open>Start\<close> holds the lock
  between its \<open>Lock\<close> and its \<open>Unlock\<close>, and so does \<open>Close\<close>; \<open>Start\<close> has
  started the handler once it is past \<open>go func()\<close>; the handler has had its first signal
  once it is past the first receive; \<open>Close\<close> has closed the stop channel once it is past
  \<open>close(b.stop)\<close>.
\<close>

fun start_holds_lock :: "start_pc \<Rightarrow> bool" where
  "start_holds_lock StartAtStartAll = True"
| "start_holds_lock StartAtUnlock = True"
| "start_holds_lock pc = False"

fun handler_started :: "start_pc \<Rightarrow> bool" where
  "handler_started StartAtWait = True"
| "handler_started StartReturned = True"
| "handler_started pc = False"

fun StartAll_done :: "start_pc \<Rightarrow> bool" where
  "StartAll_done StartAtLock = False"
| "StartAll_done StartAtStartAll = False"
| "StartAll_done pc = True"

fun first_signal_handled :: "handler_pc option \<Rightarrow> bool" where
  "first_signal_handled None = False"
| "first_signal_handled (Some AwaitFirst) = False"
| "first_signal_handled (Some pc) = True"

fun close_holds_lock :: "close_pc option \<Rightarrow> bool" where
  "close_holds_lock (Some CloseAtStopAll) = True"
| "close_holds_lock (Some CloseAtCancel) = True"
| "close_holds_lock (Some CloseAtStop) = True"
| "close_holds_lock (Some CloseAtUnlock) = True"
| "close_holds_lock pc = False"

fun close_closed_stop :: "close_pc option \<Rightarrow> bool" where
  "close_closed_stop (Some CloseAtUnlock) = True"
| "close_closed_stop (Some CloseReturned) = True"
| "close_closed_stop pc = False"

text \<open>\<open>Close\<close> has been started and has neither returned nor panicked.\<close>

fun close_running :: "close_pc option \<Rightarrow> bool" where
  "close_running None = False"
| "close_running (Some CloseReturned) = False"
| "close_running (Some ClosePanicked) = False"
| "close_running (Some pc) = True"

text \<open>The number of statements \<open>Close\<close> has still to run.\<close>

fun close_left :: "close_pc option \<Rightarrow> nat" where
  "close_left (Some CloseAtLock) = 5"
| "close_left (Some CloseAtStopAll) = 4"
| "close_left (Some CloseAtCancel) = 3"
| "close_left (Some CloseAtStop) = 2"
| "close_left (Some CloseAtUnlock) = 1"
| "close_left pc = 0"

text \<open>What holds in every state the three goroutines can reach.\<close>

definition lifecycle_inv :: "system \<Rightarrow> bool" where
  "lifecycle_inv s =
     ((handler_at s \<noteq> None) = handler_started (start_at s) \<and>
      (close_at s \<noteq> None) = first_signal_handled (handler_at s) \<and>
      lock (shared s) = (start_holds_lock (start_at s) \<or> close_holds_lock (close_at s)) \<and>
      (stop (shared s) = Closed) = close_closed_stop (close_at s) \<and>
      (StartAllCalled \<in> set (effects (shared s))) = StartAll_done (start_at s) \<and>
      (start_at s \<noteq> StartReturned \<or> stop (shared s) = Closed) \<and>
      close_at s \<noteq> Some ClosePanicked)"

subsection \<open>Debounce\<close>

text \<open>
  \<open>Debounce\<close> is driven by what its channels and its timer deliver, so the model runs it
  against a script of the environment with a clock in time units: \<open>q\<close> holds the events
  sent on \<open>eventsChan\<close>, each with the time from which it can be received, in the order
  sent; \<open>closed_at\<close> is the time at which \<open>eventsChan\<close> is closed and \<open>done_at\<close> the
  time at which \<open>ctx.Done()\<close> is closed (None: never). The statements of \<open>Debounce\<close>
  and the handler take no time. A receive from the closed, drained channel yields the zero
  value \<open>nil\<close>, here None.

  A select statement waits until its first case is ready and takes it; when several cases
  are ready at that time Go picks one at random, which the model leaves to the parameter
  \<open>pick\<close> (given the fuel left, which numbers the step, and the ready cases).
  Every iteration of the inner loop waits on the timer it has just created, so
  \<open>timer.Stop()\<close> has nothing to do in the model.
\<close>

datatype select_case = ReceiveEvent | TimerFired | ContextDone

datatype 'e position = InRange | InSelect "'e option"

datatype debounce_exit = ReturnedAt nat | BlockedInRange

definition recv_ready :: "nat \<Rightarrow> (nat \<times> 'e) list \<Rightarrow> nat option \<Rightarrow> nat option" where
  "recv_ready now q closed_at =
     (case q of
        (t, e) # q' \<Rightarrow> Some (max now t)
      | [] \<Rightarrow> (case closed_at of None \<Rightarrow> None | Some c \<Rightarrow> Some (max now c)))"

definition done_ready :: "nat \<Rightarrow> nat option \<Rightarrow> nat option" where
  "done_ready now done_at = (case done_at of None \<Rightarrow> None | Some d \<Rightarrow> Some (max now d))"

fun earlier :: "nat option \<Rightarrow> nat \<Rightarrow> nat" where
  "earlier None t = t"
| "earlier (Some u) t = min u t"

text \<open>The time at which the select statement takes a case: \<open>deadline\<close> is the timer's.\<close>

definition select_time :: "nat \<Rightarrow> nat option \<Rightarrow> nat option \<Rightarrow> nat" where
  "select_time deadline r d = earlier r (earlier d deadline)"

definition ready_cases :: "nat \<Rightarrow> nat option \<Rightarrow> nat option \<Rightarrow> select_case list" where
  "ready_cases deadline r d =
     (let t = select_time deadline r d in
      (if r = Some t then [ReceiveEvent] else []) @
      (if deadline = t then [TimerFired] else []) @
      (if d = Some t then [ContextDone] else []))"

definition take_case :: "(select_case list \<Rightarrow> select_case) \<Rightarrow> select_case list \<Rightarrow> select_case" where
  "take_case p cs = (if p cs \<in> set cs then p cs else hd cs)"

text \<open>
  The two loops of \<open>Debounce\<close>. \<open>InRange\<close>: at the receive of
  \<open>for event := range eventsChan\<close>. \<open>InSelect event\<close>: at the head of the inner loop,
  where the timer is created and the select statement runs. The result is how the call
  ended and the handler's calls, each with its time and argument; None when the fuel runs
  out first.
\<close>

fun Debounce_loop ::
  "nat \<Rightarrow> (nat \<Rightarrow> select_case list \<Rightarrow> select_case) \<Rightarrow> nat \<Rightarrow> nat option \<Rightarrow> nat option \<Rightarrow>
   'e position \<Rightarrow> nat \<Rightarrow> (nat \<times> 'e) list \<Rightarrow> (nat \<times> 'e option) list \<Rightarrow>
   (debounce_exit \<times> (nat \<times> 'e option) list) option" where
  "Debounce_loop 0 pick interval closed_at done_at pos now q calls = None"
| "Debounce_loop (Suc fuel) pick interval closed_at done_at InRange now q calls =
     (case q of
        (t, e) # q' \<Rightarrow>
          Debounce_loop fuel pick interval closed_at done_at (InSelect (Some e)) (max now t) q' calls
      | [] \<Rightarrow>
          (case closed_at of
             Some c \<Rightarrow> Some (ReturnedAt (max now c), calls)
           | None \<Rightarrow> Some (BlockedInRange, calls)))"
| "Debounce_loop (Suc fuel) pick interval closed_at done_at (InSelect event) now q calls =
     (let deadline = now + interval;
          r = recv_ready now q closed_at;
          d = done_ready now done_at;
          t = select_time deadline r d
      in case take_case (pick fuel) (ready_cases deadline r d) of
           ReceiveEvent \<Rightarrow>
             (case q of
                (u, e) # q' \<Rightarrow>
                  Debounce_loop fuel pick interval closed_at done_at (InSelect (Some e)) t q' calls
              | [] \<Rightarrow>
                  Debounce_loop fuel pick interval closed_at done_at (InSelect None) t [] calls)
         | TimerFired \<Rightarrow>
             Debounce_loop fuel pick interval closed_at done_at InRange deadline q
               (calls @ [(deadline, event)])
         | ContextDone \<Rightarrow> Some (ReturnedAt t, calls))"

definition Debounce ::
  "nat \<Rightarrow> (nat \<Rightarrow> select_case list \<Rightarrow> select_case) \<Rightarrow> nat \<Rightarrow> (nat \<times> 'e) list \<Rightarrow>
   nat option \<Rightarrow> nat option \<Rightarrow> (debounce_exit \<times> (nat \<times> 'e option) list) option" where
  "Debounce fuel pick interval eventsChan closed_at done_at =
     Debounce_loop fuel pick interval closed_at done_at InRange 0 eventsChan []"

text \<open>
  A burst after an event received at \<open>now\<close>: every next event can be received before the
  timer started at the one before it runs out.
\<close>

fun burst :: "nat \<Rightarrow> nat \<Rightarrow> (nat \<times> 'e) list \<Rightarrow> bool" where
  "burst interval now [] = True"
| "burst interval now ((t, e) # q) = (now \<le> t \<and> t < now + interval \<and> burst interval t q)"

text \<open>An optional time lies after \<open>t\<close>, or is never.\<close>

fun after :: "nat \<Rightarrow> nat option \<Rightarrow> bool" where
  "after t None = True"
| "after t (Some u) = (t < u)"

text \<open>The time of the last event of a burst after \<open>now\<close>, and the event pending after it.\<close>

fun last_time :: "nat \<Rightarrow> (nat \<times> 'e) list \<Rightarrow> nat" where
  "last_time now [] = now"
| "last_time now ((t, e) # q) = last_time t q"

fun last_event :: "'e option \<Rightarrow> (nat \<times> 'e) list \<Rightarrow> 'e option" where
  "last_event ev [] = ev"
| "last_event ev ((t, e) # q) = last_event (Some e) q"

section \<open>Properties\<close>

subsection \<open>The synchronization gate\<close>






subsection \<open>The signal handler\<close>

lemma handle_signals_panicked: "handle_signals HandlerPanicked sigs = (HandlerPanicked, [])"
  by (induction sigs) auto

lemma upt_shift: "map f [Suc a..<Suc b] = map (\<lambda>k. f (Suc k)) [a..<b]"
proof -
  have "[Suc a..<Suc b] = map Suc [a..<b]" by (simp add: map_Suc_upt)
  then show ?thesis by (simp add: comp_def)
qed

lemma handle_signals_repeat:
  "1 \<le> i \<Longrightarrow>
   handle_signals (AwaitRepeat i) sigs =
     (if int (length sigs) < i then AwaitRepeat (i - int (length sigs)) else HandlerPanicked,
      map (\<lambda>k. repeat_warning (i - int k)) [1..<Suc (min (length sigs) (nat i - 1))])"
proof (induction sigs arbitrary: i)
  case Nil
  then show ?case by simp
next
  case (Cons s ss)
  show ?case
  proof (cases "i = 1")
    case True
    then show ?thesis by (simp add: loop_head_def handle_signals_panicked)
  next
    case False
    with Cons.prems have i: "1 \<le> i - 1" "1 < i" by auto
    define m where "m = min (length ss) (nat (i - 1) - 1)"
    have mm: "min (length (s # ss)) (nat i - 1) = Suc m"
      using i by (auto simp: m_def min_def)
    have st: "on_signal (AwaitRepeat i) = (AwaitRepeat (i - 1), [repeat_warning (i - 1)])"
      using i by (simp add: loop_head_def repeat_warning_def)
    have l: "[1..<Suc (Suc m)] = 1 # [Suc 1..<Suc (Suc m)]"
      by (simp add: upt_conv_Cons)
    have "map (\<lambda>k. repeat_warning (i - int k)) [1..<Suc (Suc m)] =
          repeat_warning (i - 1) # map (\<lambda>k. repeat_warning (i - 1 - int k)) [1..<Suc m]"
      unfolding l by (simp only: list.map upt_shift) (simp add: algebra_simps)
    with Cons.IH [OF i(1)] st mm show ?thesis
      using i by (auto simp: m_def)
  qed
qed

text \<open>
  C2. The signal-handling goroutine of \<open>Start\<close>, after any sequence of termination signals:
  after none it waits for the first; the first signal logs and starts \<open>Close\<close> as a
  goroutine; after 1 to 10 signals the goroutine has not panicked and waits in the loop
  with \<open>i = 11 - n\<close>; each of the signals 2 to 10 logs the warning with the remaining
  count \<open>11 - k\<close> (9 down to 1); the 11th signal logs nothing and the goroutine panics, so
  after 11 or more signals the process has been aborted.
\<close>

theorem signal_escalation:
  "fst (signal_handler sigs) =
     (if sigs = [] then AwaitFirst
      else if length sigs \<le> 10 then AwaitRepeat (11 - int (length sigs))
      else HandlerPanicked) \<and>
   snd (signal_handler sigs) =
     (if sigs = [] then []
      else [Log Info [] ''Got interrupt, shutting down...'', GoClose] @
           map (\<lambda>k. repeat_warning (11 - int k)) [2..<Suc (min (length sigs) 10)])"
proof (cases sigs)
  case Nil
  then show ?thesis by (simp add: signal_handler_def)
next
  case (Cons s ss)
  have r: "handle_signals (AwaitRepeat 10) ss =
     (if int (length ss) < 10 then AwaitRepeat (10 - int (length ss)) else HandlerPanicked,
      map (\<lambda>k. repeat_warning (10 - int k)) [1..<Suc (min (length ss) 9)])"
    using handle_signals_repeat [of 10 ss] by simp
  have "map (\<lambda>k. repeat_warning (11 - int k)) [Suc 1..<Suc (Suc (min (length ss) 9))] =
        map (\<lambda>k. repeat_warning (10 - int k)) [1..<Suc (min (length ss) 9)]"
    by (simp only: upt_shift) (simp add: algebra_simps)
  moreover have "min (length sigs) 10 = Suc (min (length ss) 9)"
    using Cons by (auto simp: min_def)
  ultimately show ?thesis
    using Cons r by (auto simp: signal_handler_def loop_head_def numeral_2_eq_2)
qed

theorem signal_escalation_witness:
  "fst (signal_handler (replicate 10 SIGTERM)) = AwaitRepeat 1 \<and>
   snd (signal_handler (replicate 10 SIGTERM)) =
     [Log Info [] ''Got interrupt, shutting down...'', GoClose,
      repeat_warning 9, repeat_warning 8, repeat_warning 7, repeat_warning 6, repeat_warning 5,
      repeat_warning 4, repeat_warning 3, repeat_warning 2, repeat_warning 1] \<and>
   fst (signal_handler (replicate 11 SIGTERM)) = HandlerPanicked \<and>
   snd (signal_handler (replicate 11 SIGTERM)) = snd (signal_handler (replicate 10 SIGTERM))"
proof -
  have u: "[2..<11] = [2, 3, 4, 5, 6, 7, 8, 9, 10::nat]"
    by (simp add: upt_rec)
  show ?thesis
    using signal_escalation [of "replicate 10 SIGTERM"] signal_escalation [of "replicate 11 SIGTERM"]
    by (simp add: u)
qed

subsection \<open>Close\<close>

lemma emit_fields [simp]:
  "cliCtx (emit es n) = cliCtx n" "ctx (emit es n) = ctx n" "cancel (emit es n) = cancel n"
  "services (emit es n) = services n" "lock (emit es n) = lock n" "stop (emit es n) = stop n"
  "db (emit es n) = db n" "cancelled (emit es n) = cancelled n"
  "effects (emit es n) = effects n @ es"
  by (simp_all add: emit_def)

lemma Close_open:
  "\<not> lock b \<Longrightarrow> stop b = Open \<Longrightarrow>
   Close b = Completed (b\<lparr>stop := Closed, cancelled := insert (cancel b) (cancelled b),
       effects := effects b @ Close_effects b @ [CloseStopChannel]\<rparr>)"
  by (simp add: Close_def Lock_def Unlock_def Close_StopAll_def Close_cancel_def Close_stop_def
      emit_def Close_effects_def)

lemma Close_closed:
  "\<not> lock b \<Longrightarrow> stop b = Closed \<Longrightarrow>
   Close b = Panic ''close of closed channel''
     (b\<lparr>cancelled := insert (cancel b) (cancelled b),
       effects := effects b @ Close_effects b\<rparr>)"
  by (simp add: Close_def Lock_def Unlock_def Close_StopAll_def Close_cancel_def Close_stop_def
      emit_def Close_effects_def)

lemma occurrences_append: "occurrences x (es @ fs) = occurrences x es + occurrences x fs"
  by (simp add: occurrences_def)

lemma occurrences_Cons:
  "occurrences x (y # es) = (if y = x then 1 else 0) + occurrences x es"
  "occurrences x [] = 0"
  by (simp_all add: occurrences_def)

lemma occurrences_StopAll:
  "occurrences StopAllCalled (StopAll reg) = 0" "occurrences CloseStopChannel (StopAll reg) = 0"
  by (auto simp: occurrences_def StopAll_def filter_empty_conv)

lemma occurrences_Close_effects:
  "occurrences StopAllCalled (Close_effects b) = 1"
  "occurrences CloseStopChannel (Close_effects b) = 0"
  by (simp_all add: Close_effects_def occurrences_append occurrences_Cons occurrences_StopAll)

text \<open>
  C1, as the claim states it, fails: two calls of \<open>Close\<close> on the node that \<open>New\<close>
  returns, one after the other, run \<open>StopAll\<close> twice, and the second call panics when it
  closes the stop channel that the first call closed.
\<close>

theorem Close_twice_counterexample:
  "case New ok_env of
     Inl err \<Rightarrow> False
   | Inr n \<Rightarrow>
       (case Close_times 2 n of
          Panic msg b \<Rightarrow>
            msg = ''close of closed channel'' \<and>
            occurrences StopAllCalled (effects b) = 2 \<and>
            occurrences CloseStopChannel (effects b) = 1
        | Completed b \<Rightarrow> False
        | Blocked b \<Rightarrow> False)"
  by code_simp

text \<open>
  C1, amended. A call of \<open>Close\<close> that finds the lock free runs \<open>StopAll\<close> once and
  cancels the node's context. When the stop channel is open it then closes the channel,
  once, and returns with the lock released. When the stop channel is already closed the call
  panics with "close of closed channel", after it has stopped the services again. So of any
  two or more calls on a node with an open stop channel the first completes and the second
  panics: the lock orders the calls and does not make \<open>Close\<close> idempotent.
\<close>

theorem Close_once_per_call:
  "\<not> lock b \<Longrightarrow>
   (stop b = Open \<longrightarrow>
      Close b = Completed (b\<lparr>stop := Closed, cancelled := insert (cancel b) (cancelled b),
                   effects := effects b @ Close_effects b @ [CloseStopChannel]\<rparr>) \<and>
      occurrences StopAllCalled (effects b @ Close_effects b @ [CloseStopChannel]) =
        occurrences StopAllCalled (effects b) + 1 \<and>
      occurrences CloseStopChannel (effects b @ Close_effects b @ [CloseStopChannel]) =
        occurrences CloseStopChannel (effects b) + 1) \<and>
   (stop b = Closed \<longrightarrow>
      Close b = Panic ''close of closed channel''
                  (b\<lparr>cancelled := insert (cancel b) (cancelled b),
                     effects := effects b @ Close_effects b\<rparr>) \<and>
      occurrences StopAllCalled (effects b @ Close_effects b) =
        occurrences StopAllCalled (effects b) + 1) \<and>
   (stop b = Open \<longrightarrow>
      Close_times (Suc (Suc k)) b =
         Panic ''close of closed channel''
           (b\<lparr>stop := Closed, cancelled := insert (cancel b) (cancelled b),
              effects := effects b @ Close_effects b @ [CloseStopChannel] @ Close_effects b\<rparr>))"
proof -
  assume l: "\<not> lock b"
  have a: "stop b = Open \<longrightarrow>
      Close b = Completed (b\<lparr>stop := Closed, cancelled := insert (cancel b) (cancelled b),
                   effects := effects b @ Close_effects b @ [CloseStopChannel]\<rparr>) \<and>
      occurrences StopAllCalled (effects b @ Close_effects b @ [CloseStopChannel]) =
        occurrences StopAllCalled (effects b) + 1 \<and>
      occurrences CloseStopChannel (effects b @ Close_effects b @ [CloseStopChannel]) =
        occurrences CloseStopChannel (effects b) + 1"
    using l by (simp add: Close_open occurrences_append occurrences_Cons occurrences_Close_effects)
  have b: "stop b = Closed \<longrightarrow>
      Close b = Panic ''close of closed channel''
                  (b\<lparr>cancelled := insert (cancel b) (cancelled b),
                     effects := effects b @ Close_effects b\<rparr>) \<and>
      occurrences StopAllCalled (effects b @ Close_effects b) =
        occurrences StopAllCalled (effects b) + 1"
    using l by (simp add: Close_closed occurrences_append occurrences_Close_effects)
  have c: "stop b = Open \<longrightarrow>
      Close_times (Suc (Suc k)) b =
         Panic ''close of closed channel''
           (b\<lparr>stop := Closed, cancelled := insert (cancel b) (cancelled b),
              effects := effects b @ Close_effects b @ [CloseStopChannel] @ Close_effects b\<rparr>)"
  proof (intro impI)
    assume o: "stop b = Open"
    define b1 where "b1 = b\<lparr>stop := Closed, cancelled := insert (cancel b) (cancelled b),
       effects := effects b @ Close_effects b @ [CloseStopChannel]\<rparr>"
    have 1: "Close b = Completed b1" using l o by (simp add: Close_open b1_def)
    have 2: "\<not> lock b1" "stop b1 = Closed" using l by (simp_all add: b1_def)
    have 3: "Close_effects b1 = Close_effects b" by (simp add: b1_def Close_effects_def)
    show "Close_times (Suc (Suc k)) b =
         Panic ''close of closed channel''
           (b\<lparr>stop := Closed, cancelled := insert (cancel b) (cancelled b),
              effects := effects b @ Close_effects b @ [CloseStopChannel] @ Close_effects b\<rparr>)"
      using 1 Close_closed [OF 2] 3 by (simp add: b1_def)
  qed
  from a b c show ?thesis by blast
qed

theorem Close_once_per_call_witness:
  "\<not> lock new_node \<and> stop new_node = Open \<and>
   Close new_node =
     Completed (new_node\<lparr>stop := Closed, cancelled := {NodeContext},
        effects := [Log Info [] ''Stopping orchestrator node'', StopAllCalled,
                    Cancel NodeContext, CloseStopChannel]\<rparr>) \<and>
   Close_times 2 new_node =
     Panic ''close of closed channel''
       (new_node\<lparr>stop := Closed, cancelled := {NodeContext},
          effects := [Log Info [] ''Stopping orchestrator node'', StopAllCalled,
                      Cancel NodeContext, CloseStopChannel,
                      Log Info [] ''Stopping orchestrator node'', StopAllCalled,
                      Cancel NodeContext]\<rparr>) \<and>
   stop (new_node\<lparr>stop := Closed\<rparr>) = Closed \<and>
   Close (new_node\<lparr>stop := Closed\<rparr>) =
     Panic ''close of closed channel''
       (new_node\<lparr>stop := Closed, cancelled := {NodeContext},
          effects := [Log Info [] ''Stopping orchestrator node'', StopAllCalled,
                      Cancel NodeContext]\<rparr>)"
  using Close_once_per_call [of new_node 0] Close_once_per_call [of "new_node\<lparr>stop := Closed\<rparr>" 0]
  by (simp add: new_node_def Close_effects_def StopAll_def NewServiceRegistry_def numeral_2_eq_2
      del: Close_times.simps)

subsection \<open>Construction\<close>

text \<open>
  C4. \<open>New\<close> at four environments in which exactly one construction step fails. When
  \<open>pandorachain.NewService\<close> or \<open>rpc.NewService\<close> fails, the register function returns
  nil and \<open>New\<close> returns a node and no error, with the service missing from the
  registry. When \<open>vanguardchain.NewService\<close> fails the error is dropped in the same way
  and \<open>New\<close> fails later, with the registry's error from \<open>registerRPCService\<close>. When
  the storage cannot be opened \<open>New\<close> returns that error.
\<close>

theorem New_swallows_constructor_errors:
  "(case New pandora_fails of
      Inl err \<Rightarrow> False
    | Inr n \<Rightarrow> map svc_kind (services n) = [Vanguard, RPC]) \<and>
   (case New rpc_fails of
      Inl err \<Rightarrow> False
    | Inr n \<Rightarrow> map svc_kind (services n) = [Vanguard, Pandora]) \<and>
   New vanguard_fails = Inl (ServiceNotFoundError Vanguard) \<and>
   New storage_fails = Inl (ExternalError ''open failed'')"
  by code_simp

text \<open>
  C5. On the node that \<open>New\<close> returns, once both feeds have delivered, the consensus
  service is registered with the database handle of the node and with the context of the
  command line, \<open>cliCtx.Context\<close>, not with the node's cancellable context; a following
  \<open>Close\<close> cancels the node's context only.
\<close>

theorem consensus_service_gets_cli_context:
  "case New ok_env of
     Inl err \<Rightarrow> False
   | Inr n \<Rightarrow>
       (case registerConsensusService [HeadersFeed, ConsensusInfoFeed] n of
          (BlockedInSelect, n') \<Rightarrow> False
        | (Returned, n') \<Rightarrow>
            (case FetchService (services n') Consensus of
               Inl err \<Rightarrow> False
             | Inr svc \<Rightarrow>
                 svc_ctx svc = CliContext \<and> cancel n' = NodeContext \<and> svc_db svc = db n' \<and>
                 (case Close n' of
                    Completed n'' \<Rightarrow> cancelled n'' = {NodeContext}
                  | Panic msg n'' \<Rightarrow> False
                  | Blocked n'' \<Rightarrow> False)))"
  by code_simp

lemma FetchService_absent:
  "k \<notin> svc_kind ` set reg \<Longrightarrow> FetchService reg k = Inl (ServiceNotFoundError k)"
  by (auto simp: FetchService_def find_None_iff split: option.splits)

text \<open>
  C6. \<open>registerRPCService\<close> returns the error of the fetch of the vanguard service and
  leaves the node as it was. With the registry of the spec, the fetch fails with
  \<open>ServiceNotFoundError\<close> when no vanguard service is registered; then that is the error
  returned, and no RPC service has been added to the registry.
\<close>

theorem registerRPCService_without_vanguard:
  "(FetchService (services o_node) Vanguard = Inl err \<longrightarrow>
      registerRPCService e o_node = (Some err, o_node)) \<and>
   (Vanguard \<notin> svc_kind ` set (services o_node) \<longrightarrow>
      registerRPCService e o_node = (Some (ServiceNotFoundError Vanguard), o_node) \<and>
      RPC \<in> svc_kind ` set (services (snd (registerRPCService e o_node))) =
        (RPC \<in> svc_kind ` set (services o_node)))"
  by (auto simp: registerRPCService_def FetchService_absent)

theorem registerRPCService_without_vanguard_witness:
  "Vanguard \<notin> svc_kind ` set (services new_node) \<and>
   FetchService (services new_node) Vanguard = Inl (ServiceNotFoundError Vanguard) \<and>
   registerRPCService ok_env new_node = (Some (ServiceNotFoundError Vanguard), new_node) \<and>
   RPC \<notin> svc_kind ` set (services (snd (registerRPCService ok_env new_node)))"
  using registerRPCService_without_vanguard [of new_node "ServiceNotFoundError Vanguard" ok_env]
  by (simp add: new_node_def NewServiceRegistry_def FetchService_def)

text \<open>
  C7. When the fetch of the vanguard service fails, or that fetch succeeds and the fetch of
  the pandora service fails, \<open>registerConsensusService\<close> returns, for any deliveries on
  the feeds; all it has done is to log the error: the registry holds no new service, and
  the lock, the stop channel and the contexts are as before. The function has no result and
  runs as a goroutine of its own, so nothing reaches the caller of \<open>New\<close>.
\<close>

theorem registerConsensusService_fetch_failure:
  "FetchService (services o_node) Vanguard = Inl err \<or>
   (\<exists>v. FetchService (services o_node) Vanguard = Inr v) \<and>
     FetchService (services o_node) Pandora = Inl err \<Longrightarrow>
   registerConsensusService deliveries o_node =
     (Returned, o_node\<lparr>effects := effects o_node @ [consensus_not_registered err]\<rparr>)"
  by (auto simp: registerConsensusService_def emit_def)

theorem registerConsensusService_fetch_failure_witness:
  "case New pandora_fails of
     Inl err \<Rightarrow> False
   | Inr n \<Rightarrow>
       FetchService (services n) Vanguard =
         Inr \<lparr>svc_kind = Vanguard, svc_ctx = NodeContext, svc_db = Some 1\<rparr> \<and>
       FetchService (services n) Pandora = Inl (ServiceNotFoundError Pandora) \<and>
       registerConsensusService [HeadersFeed, ConsensusInfoFeed] n =
         (Returned,
          n\<lparr>effects := effects n @ [consensus_not_registered (ServiceNotFoundError Pandora)]\<rparr>) \<and>
       FetchService (services new_node) Vanguard = Inl (ServiceNotFoundError Vanguard) \<and>
       registerConsensusService [HeadersFeed, ConsensusInfoFeed] new_node =
         (Returned,
          new_node\<lparr>effects := [consensus_not_registered (ServiceNotFoundError Vanguard)]\<rparr>)"
proof -
  obtain n where n: "New pandora_fails = Inr n" "FetchService (services n) Vanguard =
         Inr \<lparr>svc_kind = Vanguard, svc_ctx = NodeContext, svc_db = Some 1\<rparr>"
       "FetchService (services n) Pandora = Inl (ServiceNotFoundError Pandora)"
    by (simp add: New_def pandora_fails_def ok_env_def new_node_def startDB_def
        registerVanguardChainService_def registerPandoraChainService_def registerRPCService_def
        register_in_def RegisterService_def FetchService_def NewServiceRegistry_def emit_def)
  have v: "FetchService (services new_node) Vanguard = Inl (ServiceNotFoundError Vanguard)"
    by (simp add: new_node_def NewServiceRegistry_def FetchService_def)
  have e: "effects new_node = []"
    by (simp add: new_node_def)
  show ?thesis
    using n v e
      registerConsensusService_fetch_failure
        [of n "ServiceNotFoundError Pandora" "[HeadersFeed, ConsensusInfoFeed]"]
      registerConsensusService_fetch_failure
        [of new_node "ServiceNotFoundError Vanguard" "[HeadersFeed, ConsensusInfoFeed]"]
    by simp
qed

subsection \<open>Start and Close as goroutines\<close>

lemma inv_init:
  "\<not> lock n \<Longrightarrow> stop n = Open \<Longrightarrow> StartAllCalled \<notin> set (effects n) \<Longrightarrow>
   lifecycle_inv (system_init n)"
  by (simp add: lifecycle_inv_def system_init_def)

lemma inv_step_Start:
  "lifecycle_inv s \<Longrightarrow> step_Start s = Some s' \<Longrightarrow> lifecycle_inv s'"
  by (cases "start_at s")
     (auto simp: step_Start_def lifecycle_inv_def Lock_def Unlock_def Start_StartAll_def
        Start_wait_def crashed_def StartAll_def
      split: if_splits chan_state.splits)

lemma GoClose_on_signal:
  "on_signal pc = (pc', es) \<Longrightarrow> (GoClose \<in> set es) = (pc = AwaitFirst)"
  by (cases pc) (auto split: if_splits)

lemma first_signal_handled_on_signal:
  "on_signal pc = (pc', es) \<Longrightarrow> first_signal_handled (Some pc')"
  by (cases pc) (auto simp: loop_head_def split: if_splits)

lemma effects_on_signal:
  "on_signal pc = (pc', es) \<Longrightarrow> StartAllCalled \<notin> set es"
  by (cases pc) (auto split: if_splits)

lemma inv_step_Signal:
  assumes "lifecycle_inv s" "step_Signal s = Some s'"
  shows "lifecycle_inv s'"
proof -
  from assms(2) obtain pc pc' es where
    h: "handler_at s = Some pc" "on_signal pc = (pc', es)"
       "s' = s\<lparr>shared := emit es (shared s), handler_at := Some pc',
                 close_at := (if GoClose \<in> set es then Some CloseAtLock else close_at s)\<rparr>"
    by (auto simp: step_Signal_def split: if_splits option.splits prod.splits)
  note g = GoClose_on_signal [OF h(2)] first_signal_handled_on_signal [OF h(2)]
    effects_on_signal [OF h(2)]
  show ?thesis
  proof (cases "pc = AwaitFirst")
    case True
    with assms(1) h g show ?thesis by (cases "start_at s") (auto simp: lifecycle_inv_def)
  next
    case False
    then have "first_signal_handled (Some pc)" by (cases pc) auto
    with False assms(1) h g show ?thesis by (cases "start_at s") (auto simp: lifecycle_inv_def)
  qed
qed

lemma inv_step_Close:
  assumes "lifecycle_inv s" "step_Close s = Some s'"
  shows "lifecycle_inv s'"
proof (cases "close_at s")
  case None
  with assms show ?thesis by (simp add: step_Close_def split: if_splits)
next
  case (Some pc)
  with assms show ?thesis
    by (cases pc; cases "start_at s")
       (auto simp: step_Close_def lifecycle_inv_def Lock_def Unlock_def Close_StopAll_def
          Close_cancel_def Close_stop_def crashed_def StopAll_def
        split: if_splits chan_state.splits)
qed

lemma inv_step: "lifecycle_inv s \<Longrightarrow> step m s = Some s' \<Longrightarrow> lifecycle_inv s'"
  by (cases m) (auto intro: inv_step_Start inv_step_Signal inv_step_Close)

lemma inv_run: "lifecycle_inv s \<Longrightarrow> lifecycle_inv (run ms s)"
proof (induction ms arbitrary: s)
  case Nil
  then show ?case by simp
next
  case (Cons m ms)
  then show ?case by (cases "step m s") (auto intro: inv_step)
qed


lemma close_step:
  assumes "lifecycle_inv s" "close_running (close_at s)" "\<not> crashed s"
  shows "\<exists>s'. step_Close s = Some s' \<and> start_at s' = start_at s \<and>
           handler_at s' = handler_at s \<and> close_at s' \<noteq> None \<and>
           close_left (close_at s) = Suc (close_left (close_at s'))"
proof -
  from assms obtain pc where pc: "close_at s = Some pc" by (cases "close_at s") auto
  with assms show ?thesis
    by (cases pc; cases "start_at s")
       (auto simp: step_Close_def lifecycle_inv_def Lock_def Close_stop_def
        split: chan_state.splits)
qed

lemma close_left_0:
  "close_at s \<noteq> None \<Longrightarrow> close_at s \<noteq> Some ClosePanicked \<Longrightarrow>
   (close_left (close_at s) = 0) = (close_at s = Some CloseReturned)"
  by (cases "close_at s"; cases "the (close_at s)") auto

lemma close_running_left:
  "close_at s \<noteq> Some ClosePanicked \<Longrightarrow> close_running (close_at s) = (0 < close_left (close_at s))"
  by (cases "close_at s"; cases "the (close_at s)") auto

lemma close_progress:
  "lifecycle_inv s \<Longrightarrow> \<not> crashed s \<Longrightarrow> close_at s \<noteq> None \<Longrightarrow>
   lifecycle_inv (run (replicate n CloseMoves) s) \<and>
   \<not> crashed (run (replicate n CloseMoves) s) \<and>
   start_at (run (replicate n CloseMoves) s) = start_at s \<and>
   handler_at (run (replicate n CloseMoves) s) = handler_at s \<and>
   close_at (run (replicate n CloseMoves) s) \<noteq> None \<and>
   close_left (close_at (run (replicate n CloseMoves) s)) = close_left (close_at s) - n"
proof (induction n arbitrary: s)
  case 0
  then show ?case by simp
next
  case (Suc n)
  have np: "close_at s \<noteq> Some ClosePanicked" using Suc.prems by (simp add: lifecycle_inv_def)
  show ?case
  proof (cases "close_running (close_at s)")
    case True
    from close_step [OF Suc.prems(1) True Suc.prems(2)] obtain s' where
      s': "step_Close s = Some s'" "start_at s' = start_at s" "handler_at s' = handler_at s"
          "close_at s' \<noteq> None" "close_left (close_at s) = Suc (close_left (close_at s'))"
      by blast
    have i: "lifecycle_inv s'" using inv_step_Close [OF Suc.prems(1) s'(1)] .
    then have "close_at s' \<noteq> Some ClosePanicked" by (simp add: lifecycle_inv_def)
    with s'(3) Suc.prems(2) have c: "\<not> crashed s'" by (simp add: crashed_def)
    from Suc.IH [OF i c s'(4)] s' show ?thesis by simp
  next
    case False
    with np have z: "close_left (close_at s) = 0" by (simp add: close_running_left)
    from False Suc.prems have "step_Close s = None"
      by (cases "close_at s"; cases "the (close_at s)") (auto simp: step_Close_def)
    with Suc.IH [OF Suc.prems] z show ?thesis by simp
  qed
qed

lemma run_append: "run (ms @ ns) s = run ns (run ms s)"
  by (induction ms arbitrary: s) auto

lemma start_returns:
  assumes "lifecycle_inv s" "close_at s = Some CloseReturned" "\<not> crashed s"
  shows "start_at (run [StartMoves] s) = StartReturned"
  using assms
  by (cases "start_at s")
     (auto simp: lifecycle_inv_def step_Start_def Start_wait_def split: chan_state.splits)

text \<open>
  The steps of the goroutines make up the functions: four steps of \<open>Start\<close> are
  \<open>Start_until_wait\<close>, and the five steps of \<open>Close\<close> are \<open>Close\<close>.
\<close>

lemma steps_of_Start:
  "\<not> lock n \<Longrightarrow>
   Start_until_wait n =
     Completed (shared (run [StartMoves, StartMoves, StartMoves, StartMoves] (system_init n))) \<and>
   start_at (run [StartMoves, StartMoves, StartMoves, StartMoves] (system_init n)) = StartAtWait \<and>
   handler_at (run [StartMoves, StartMoves, StartMoves, StartMoves] (system_init n)) =
     Some AwaitFirst"
  by (simp add: Start_until_wait_def step_Start_def system_init_def crashed_def Lock_def)

lemma steps_of_Close:
  "\<not> lock (shared s) \<Longrightarrow> stop (shared s) = Open \<Longrightarrow> close_at s = Some CloseAtLock \<Longrightarrow>
   handler_at s \<noteq> Some HandlerPanicked \<Longrightarrow>
   Close (shared s) =
     Completed (shared (run [CloseMoves, CloseMoves, CloseMoves, CloseMoves, CloseMoves] s)) \<and>
   close_at (run [CloseMoves, CloseMoves, CloseMoves, CloseMoves, CloseMoves] s) =
     Some CloseReturned"
  by (simp add: Close_def step_Close_def crashed_def Lock_def Close_stop_def Close_cancel_def
      Close_StopAll_def Unlock_def)

text \<open>
  C10. \<open>Start\<close> on a node with a free lock and an open stop channel (and a trace on
  which \<open>StartAll\<close> has not been called) blocks at the receive from the stop channel
  with \<open>StartAll\<close> called and the lock released; \<open>Close\<close> on the node it left takes
  the lock, completes and closes the stop channel, on which the receive of \<open>Start\<close>
  returns. The same for the goroutines \<open>Start\<close>, the signal handler and the handler's
  \<open>Close\<close>, run step by step under any schedule. When \<open>Start\<close> stands at the
  receive from the stop channel, \<open>StartAll\<close> has been called and \<open>Start\<close> has released
  the lock: the lock is held only while \<open>Close\<close> is between its \<open>Lock\<close> and its
  \<open>Unlock\<close>, and before \<open>Close\<close> is started only while \<open>Start\<close> is between its
  own. \<open>Close\<close> never panics. While \<open>Close\<close> is running and the process has not been
  aborted by the handler, \<open>Close\<close> can always take its next step (it never waits for the
  lock), and given five turns it returns with the stop channel closed and the lock free,
  after which \<open>Start\<close> returns on its next turn.
\<close>

theorem Start_Close_no_deadlock:
  assumes "\<not> lock o_node" "stop o_node = Open" "StartAllCalled \<notin> set (effects o_node)"
  shows
    "(case Start o_node of
        Blocked o1 \<Rightarrow>
          \<not> lock o1 \<and> StartAllCalled \<in> set (effects o1) \<and>
          (case Close o1 of
             Completed o2 \<Rightarrow> stop o2 = Closed \<and> \<not> lock o2 \<and> Start_wait o2 = Completed o2
           | Panic msg o2 \<Rightarrow> False
           | Blocked o2 \<Rightarrow> False)
      | Completed o1 \<Rightarrow> False
      | Panic msg o1 \<Rightarrow> False) \<and>
     (let s = run schedule (system_init o_node) in
        (start_at s = StartAtWait \<longrightarrow>
           StartAllCalled \<in> set (effects (shared s)) \<and>
           lock (shared s) = close_holds_lock (close_at s)) \<and>
        (close_at s = None \<longrightarrow> lock (shared s) = start_holds_lock (start_at s)) \<and>
        close_at s \<noteq> Some ClosePanicked \<and>
        (close_running (close_at s) \<and> \<not> crashed s \<longrightarrow>
           step CloseMoves s \<noteq> None \<and>
           (let s' = run (replicate 5 CloseMoves) s in
              close_at s' = Some CloseReturned \<and> stop (shared s') = Closed \<and>
              \<not> lock (shared s') \<and> start_at (run [StartMoves] s') = StartReturned)))"
proof -
  define s where "s = run schedule (system_init o_node)"
  have i: "lifecycle_inv s"
    unfolding s_def using assms by (intro inv_run inv_init)
  have a: "start_at s = StartAtWait \<longrightarrow>
           StartAllCalled \<in> set (effects (shared s)) \<and>
           lock (shared s) = close_holds_lock (close_at s)"
    using i by (auto simp: lifecycle_inv_def)
  have b: "close_at s = None \<longrightarrow> lock (shared s) = start_holds_lock (start_at s)"
    using i by (auto simp: lifecycle_inv_def)
  have c: "close_at s \<noteq> Some ClosePanicked"
    using i by (simp add: lifecycle_inv_def)
  have d: "step CloseMoves s \<noteq> None \<and>
           (let s' = run (replicate 5 CloseMoves) s in
              close_at s' = Some CloseReturned \<and> stop (shared s') = Closed \<and>
              \<not> lock (shared s') \<and> start_at (run [StartMoves] s') = StartReturned)"
    if r: "close_running (close_at s)" "\<not> crashed s"
  proof -
    define s' where "s' = run (replicate 5 CloseMoves) s"
    from r(1) have n: "close_at s \<noteq> None" by (cases "close_at s") auto
    from close_step [OF i r] have e: "step CloseMoves s \<noteq> None" by auto
    from close_progress [OF i r(2) n, of 5]
    have p: "lifecycle_inv s'" "\<not> crashed s'" "start_at s' = start_at s"
      "close_at s' \<noteq> None" "close_left (close_at s') = close_left (close_at s) - 5"
      by (simp_all add: s'_def)
    have "close_left (close_at s) \<le> 5"
      by (cases "close_at s"; cases "the (close_at s)") auto
    with p(5) have "close_left (close_at s') = 0" by simp
    with p(1,4) have f: "close_at s' = Some CloseReturned"
      by (simp add: close_left_0 lifecycle_inv_def)
    with p(1) have g: "stop (shared s') = Closed"
      by (simp add: lifecycle_inv_def)
    from p(1) f have h: "\<not> lock (shared s')"
      by (cases "start_at s'") (auto simp: lifecycle_inv_def)
    from e f g h start_returns [OF p(1) f p(2)] show ?thesis
      by (simp add: s'_def Let_def)
  qed
  have z: "case Start o_node of
        Blocked o1 \<Rightarrow>
          \<not> lock o1 \<and> StartAllCalled \<in> set (effects o1) \<and>
          (case Close o1 of
             Completed o2 \<Rightarrow> stop o2 = Closed \<and> \<not> lock o2 \<and> Start_wait o2 = Completed o2
           | Panic msg o2 \<Rightarrow> False
           | Blocked o2 \<Rightarrow> False)
      | Completed o1 \<Rightarrow> False
      | Panic msg o1 \<Rightarrow> False"
    using assms(1,2)
    by (simp add: Start_def Start_until_wait_def Start_wait_def Lock_def Unlock_def
        Start_StartAll_def Close_def Close_stop_def Close_cancel_def Close_StopAll_def)
  from a b c d have "let s = run schedule (system_init o_node) in
        (start_at s = StartAtWait \<longrightarrow>
           StartAllCalled \<in> set (effects (shared s)) \<and>
           lock (shared s) = close_holds_lock (close_at s)) \<and>
        (close_at s = None \<longrightarrow> lock (shared s) = start_holds_lock (start_at s)) \<and>
        close_at s \<noteq> Some ClosePanicked \<and>
        (close_running (close_at s) \<and> \<not> crashed s \<longrightarrow>
           step CloseMoves s \<noteq> None \<and>
           (let s' = run (replicate 5 CloseMoves) s in
              close_at s' = Some CloseReturned \<and> stop (shared s') = Closed \<and>
              \<not> lock (shared s') \<and> start_at (run [StartMoves] s') = StartReturned))"
    unfolding s_def [symmetric] Let_def by blast
  with z show ?thesis by (rule conjI)
qed

theorem Start_Close_no_deadlock_witness:
  "\<not> lock new_node \<and> stop new_node = Open \<and> StartAllCalled \<notin> set (effects new_node) \<and>
   start_at (run [StartMoves, StartMoves, StartMoves, StartMoves, StartMoves] (system_init new_node))
     = StartAtWait \<and>
   \<not> lock (shared (run [StartMoves, StartMoves, StartMoves, StartMoves, StartMoves]
                     (system_init new_node))) \<and>
   close_running (close_at
     (run [StartMoves, StartMoves, StartMoves, StartMoves, StartMoves, SignalArrives, CloseMoves]
        (system_init new_node))) \<and>
   \<not> crashed
     (run [StartMoves, StartMoves, StartMoves, StartMoves, StartMoves, SignalArrives, CloseMoves]
        (system_init new_node)) \<and>
   start_at (run [StartMoves]
     (run (replicate 5 CloseMoves)
        (run [StartMoves, StartMoves, StartMoves, StartMoves, StartMoves, SignalArrives, CloseMoves]
           (system_init new_node)))) = StartReturned"
proof -
  have e: "\<not> lock new_node \<and> stop new_node = Open \<and> StartAllCalled \<notin> set (effects new_node) \<and>
   start_at (run [StartMoves, StartMoves, StartMoves, StartMoves, StartMoves] (system_init new_node))
     = StartAtWait \<and>
   \<not> lock (shared (run [StartMoves, StartMoves, StartMoves, StartMoves, StartMoves]
                     (system_init new_node))) \<and>
   close_running (close_at
     (run [StartMoves, StartMoves, StartMoves, StartMoves, StartMoves, SignalArrives, CloseMoves]
        (system_init new_node))) \<and>
   \<not> crashed
     (run [StartMoves, StartMoves, StartMoves, StartMoves, StartMoves, SignalArrives, CloseMoves]
        (system_init new_node))"
    by code_simp
  show ?thesis
    using e
      Start_Close_no_deadlock
        [of new_node
            "[StartMoves, StartMoves, StartMoves, StartMoves, StartMoves, SignalArrives, CloseMoves]"]
      Start_Close_no_deadlock
        [of new_node "[StartMoves, StartMoves, StartMoves, StartMoves, StartMoves]"]
    by (simp add: Let_def del: run.simps replicate.simps)
qed

subsection \<open>Debounce\<close>

lemma burst_last_time: "burst interval now q \<Longrightarrow> now \<le> last_time now q"
proof (induction q arbitrary: now)
  case Nil
  then show ?case by simp
next
  case (Cons a q)
  obtain t e where a: "a = (t, e)" by (cases a)
  with Cons.prems Cons.IH [of t] show ?case by simp
qed

lemma after_mono: "after t x \<Longrightarrow> s \<le> t \<Longrightarrow> after s x"
  by (cases x) auto

lemma after_done_ready: "after t done_at \<Longrightarrow> after t (done_ready now done_at)"
  by (cases done_at) (auto simp: done_ready_def)

lemma select_receive:
  assumes "t < deadline" "after t d"
  shows "select_time deadline (Some t) d = t"
    and "take_case p (ready_cases deadline (Some t) d) = ReceiveEvent"
  using assms by (cases d; simp add: select_time_def ready_cases_def take_case_def)+

lemma select_timer:
  assumes "after deadline r" "after deadline d"
  shows "take_case p (ready_cases deadline r d) = TimerFired"
  using assms by (cases r; cases d; simp add: select_time_def ready_cases_def take_case_def)

lemma timer_fires:
  assumes "after (now + interval) closed_at" "after (now + interval) done_at"
  shows "Debounce_loop (Suc fuel) pick interval closed_at done_at (InSelect ev) now [] calls =
         Debounce_loop fuel pick interval closed_at done_at InRange (now + interval) []
           (calls @ [(now + interval, ev)])"
proof -
  have r: "after (now + interval) (recv_ready now [] closed_at)"
    using assms(1) by (cases closed_at) (auto simp: recv_ready_def)
  have d: "after (now + interval) (done_ready now done_at)"
    using assms(2) by (rule after_done_ready)
  show ?thesis
    by (simp add: Let_def select_timer [OF r d])
qed

lemma event_received:
  assumes "now \<le> t" "t < now + interval" "after t done_at"
  shows "Debounce_loop (Suc fuel) pick interval closed_at done_at (InSelect ev) now ((t, e) # q) calls =
         Debounce_loop fuel pick interval closed_at done_at (InSelect (Some e)) t q calls"
proof -
  have r: "recv_ready now ((t, e) # q) closed_at = Some t"
    using assms(1) by (simp add: recv_ready_def max_def)
  have d: "after t (done_ready now done_at)"
    using assms(3) by (rule after_done_ready)
  show ?thesis
    by (simp add: Let_def r select_receive [OF assms(2) d])
qed

lemma burst_coalesced:
  "burst interval now q \<Longrightarrow>
   after (last_time now q + interval) closed_at \<Longrightarrow>
   after (last_time now q + interval) done_at \<Longrightarrow>
   Debounce_loop (Suc (length q + fuel)) pick interval closed_at done_at (InSelect ev) now q calls =
   Debounce_loop fuel pick interval closed_at done_at InRange (last_time now q + interval) []
     (calls @ [(last_time now q + interval, last_event ev q)])"
proof (induction q arbitrary: now ev)
  case Nil
  then show ?case
    using timer_fires [of now interval closed_at done_at fuel pick ev calls]
    by (simp del: Debounce_loop.simps)
next
  case (Cons a q)
  obtain t e where a: "a = (t, e)" by (cases a)
  from Cons.prems a have b: "now \<le> t" "t < now + interval" "burst interval t q"
    and c: "after (last_time t q + interval) closed_at"
    and d: "after (last_time t q + interval) done_at"
    by simp_all
  from burst_last_time [OF b(3)] have "t \<le> last_time t q + interval" by simp
  with d have "after t done_at" by (rule after_mono)
  then have "Debounce_loop (Suc (Suc (length q + fuel))) pick interval closed_at done_at
          (InSelect ev) now ((t, e) # q) calls =
        Debounce_loop (Suc (length q + fuel)) pick interval closed_at done_at
          (InSelect (Some e)) t q calls"
    by (rule event_received [OF b(1,2)])
  with Cons.IH [OF b(3) c d, of "Some e"] a show ?case
    by (simp del: Debounce_loop.simps)
qed

text \<open>
  C8. A burst: a first event received at \<open>t0\<close> and further events, each receivable
  before the timer started at the one before it has run out; then a quiet interval, in
  which the channel is not closed and the context is not cancelled. Given fuel for the
  steps, \<open>Debounce\<close> calls the handler exactly once, at the time of the last event plus
  the interval, with the last event, whatever the select statement would pick among ready
  cases; every event of the burst has restarted the timer. After the call \<open>Debounce\<close>
  waits for the next event, or returns when the channel is closed.
\<close>

theorem Debounce_coalesces_burst:
  assumes "burst interval t0 q"
    and "after (last_time t0 q + interval) closed_at"
    and "after (last_time t0 q + interval) done_at"
    and "length q + 3 \<le> fuel"
  shows "Debounce fuel pick interval ((t0, e0) # q) closed_at done_at =
         Some (case closed_at of None \<Rightarrow> BlockedInRange | Some c \<Rightarrow> ReturnedAt c,
               [(last_time t0 q + interval, last_event (Some e0) q)])"
proof -
  from assms(4) have "fuel = Suc (Suc (length q + Suc (fuel - (length q + 3))))"
    by simp
  then obtain k where k: "fuel = Suc (Suc (length q + Suc k))" ..
  have "Debounce fuel pick interval ((t0, e0) # q) closed_at done_at =
        Debounce_loop (Suc (length q + Suc k)) pick interval closed_at done_at
          (InSelect (Some e0)) t0 q []"
    by (simp add: Debounce_def k)
  also have "\<dots> = Debounce_loop (Suc k) pick interval closed_at done_at InRange
          (last_time t0 q + interval) [] [(last_time t0 q + interval, last_event (Some e0) q)]"
    using burst_coalesced [OF assms(1-3), of "Suc k" pick "Some e0" "[]"]
    by (simp del: Debounce_loop.simps)
  also have "\<dots> = Some (case closed_at of None \<Rightarrow> BlockedInRange | Some c \<Rightarrow> ReturnedAt c,
               [(last_time t0 q + interval, last_event (Some e0) q)])"
    using assms(2) by (cases closed_at) (auto simp: max_def)
  finally show ?thesis .
qed

theorem Debounce_coalesces_burst_witness:
  "burst 50 0 [(10, ''b''), (20, ''c'')] \<and>
   after (last_time 0 [(10, ''b''), (20, ''c'')] + 50) None \<and>
   last_time 0 [(10, ''b''), (20, ''c'')] + 50 = 70 \<and>
   Debounce 5 (\<lambda>n cs. hd cs) 50 [(0, ''a''), (10, ''b''), (20, ''c'')] None None =
     Some (BlockedInRange, [(70, Some ''c'')])"
  using Debounce_coalesces_burst [of 50 0 "[(10, ''b''), (20, ''c'')]" None None 5 "\<lambda>n cs. hd cs" "''a''"]
  by simp

lemma closed_channel_spins:
  "Debounce_loop fuel pick interval (Some c) None (InSelect ev) c [] calls = None"
  if "0 < interval"
proof (induction fuel arbitrary: ev)
  case 0
  show ?case by simp
next
  case (Suc fuel)
  have "take_case (pick fuel) (ready_cases (c + interval) (Some c) None) = ReceiveEvent"
       "select_time (c + interval) (Some c) None = c"
    using that by (simp_all add: select_receive)
  then show ?case
    using Suc.IH [of None] by (simp add: Let_def recv_ready_def done_ready_def)
qed

text \<open>
  C9. Two runs in which \<open>Debounce\<close> does not terminate. One event at time 0, the channel
  closed at time 10, interval 50, the context never cancelled: every select statement
  receives the zero value from the closed channel and the inner loop starts a new timer, so
  that no amount of fuel lets the call return. No event, the channel left open, the context
  cancelled at time 5: the call stays blocked in \<open>range eventsChan\<close>, which does not look
  at the context.
\<close>

theorem Debounce_misses_close_and_cancel:
  "Debounce fuel pick 50 [(0, e)] (Some 10) None = None \<and>
   Debounce (Suc fuel) pick 50 [] None (Some 5) = Some (BlockedInRange, [])"
proof -
  have s: "Debounce_loop n pick 50 (Some 10) None (InSelect ev) 10 [] calls = None"
    for n ev and calls :: "(nat \<times> 'a option) list"
    by (rule closed_channel_spins) simp
  have t: "take_case p (ready_cases 50 (Some 10) None) = ReceiveEvent"
       "select_time 50 (Some 10) None = 10" for p
    by (simp_all add: select_receive)
  have "Debounce fuel pick 50 [(0, e)] (Some 10) None = None"
  proof (cases fuel)
    case 0
    then show ?thesis by (simp add: Debounce_def)
  next
    case (Suc f)
    show ?thesis
    proof (cases f)
      case 0
      with Suc show ?thesis by (simp add: Debounce_def)
    next
      case (Suc g)
      with \<open>fuel = Suc f\<close> show ?thesis
        by (simp add: Debounce_def Let_def recv_ready_def done_ready_def t s
            del: Debounce_loop.simps(1) )
    qed
  qed
  moreover have "Debounce (Suc fuel) pick 50 [] None (Some 5) = Some (BlockedInRange, [])"
    by (simp add: Debounce_def)
  ultimately show ?thesis by simp
qed

end
